theory Spec2Isabelle
  imports Complex_Main
begin

section \<open>Shared Python notions\<close>

text \<open>
  Clock readings (\<open>time.time()\<close>) and the arithmetic on them are taken as exact
  rationals. Exceptions are values; a function that may raise returns a sum whose
  left injection is the exception.
\<close>

type_synonym timestamp = rat

datatype exn =
    ValueError
  | ImportError
  | CircuitBreakerOpenError
  | RateLimitExceededError
  | ApiError string
  | CancelledError
  | KeyboardInterrupt

text \<open>
  What \<open>except Exception\<close> catches: \<open>asyncio.CancelledError\<close> and \<open>KeyboardInterrupt\<close>
  derive from \<open>BaseException\<close> only and pass through it.
\<close>

fun is_Exception :: "exn \<Rightarrow> bool" where
  "is_Exception CancelledError = False"
| "is_Exception KeyboardInterrupt = False"
| "is_Exception e = True"

text \<open>Python's \<open>int(x)\<close> on a float truncates towards zero.\<close>

definition py_int :: "rat \<Rightarrow> int" where
  "py_int x = (if 0 \<le> x then \<lfloor>x\<rfloor> else \<lceil>x\<rceil>)"

text \<open>Python's \<open>min(xs)\<close>; on an empty list it raises \<open>ValueError\<close>.\<close>

fun py_min :: "rat list \<Rightarrow> exn + rat" where
  "py_min [] = Inl ValueError"
| "py_min (x # xs) = Inr (fold min xs x)"

section \<open>utils/rate\_limiter.py: RateLimiter\<close>

record RateLimitConfig =
  requests_per_minute :: int
  requests_per_hour :: int
  burst_allowance :: int
  cooldown_seconds :: int

record RateLimiter =
  rl_config :: RateLimitConfig
  tokens :: int
  last_refill :: timestamp
  minute_requests :: "timestamp list"
  hour_requests :: "timestamp list"

text \<open>\<open>RateLimiter.__init__\<close>; \<open>t0\<close> is the clock reading taken there.\<close>

definition RateLimiter_init :: "RateLimitConfig \<Rightarrow> timestamp \<Rightarrow> RateLimiter" where
  "RateLimiter_init cfg t0 =
     \<lparr>rl_config = cfg, tokens = burst_allowance cfg, last_refill = t0,
      minute_requests = [], hour_requests = []\<rparr>"

definition cleanup_old_requests :: "timestamp \<Rightarrow> RateLimiter \<Rightarrow> RateLimiter" where
  "cleanup_old_requests now s =
     (let minute_ago = now - 60; hour_ago = now - 3600
      in s\<lparr>minute_requests := filter (\<lambda>t. t > minute_ago) (minute_requests s),
           hour_requests := filter (\<lambda>t. t > hour_ago) (hour_requests s)\<rparr>)"

definition refill_tokens :: "timestamp \<Rightarrow> RateLimiter \<Rightarrow> RateLimiter" where
  "refill_tokens now s =
     (let time_passed = now - last_refill s;
          tokens_to_add =
            py_int (time_passed * of_int (requests_per_minute (rl_config s)) / 60)
      in s\<lparr>tokens := min (burst_allowance (rl_config s)) (tokens s + tokens_to_add),
           last_refill := now\<rparr>)"

text \<open>
  The dictionary returned next to the verdict. Each constructor is one of the four
  dictionaries the source builds: \<open>reason\<close> and \<open>retry_after\<close> for the three denials
  (the burst denial also carries \<open>tokens_available\<close>), and \<open>remaining_minute\<close>,
  \<open>remaining_hour\<close>, \<open>tokens_available\<close> for a grant.
\<close>

datatype info =
    minute_limit_exceeded rat
  | hour_limit_exceeded rat
  | burst_limit_exceeded int int
  | granted int int int

fun retry_after :: "info \<Rightarrow> rat" where
  "retry_after (minute_limit_exceeded r) = r"
| "retry_after (hour_limit_exceeded r) = r"
| "retry_after (burst_limit_exceeded c t) = of_int c"
| "retry_after (granted m h t) = 60"

definition is_allowed ::
  "int \<Rightarrow> timestamp \<Rightarrow> RateLimiter \<Rightarrow> (exn + bool \<times> info) \<times> RateLimiter" where
  "is_allowed cost now s =
     (let s1 = cleanup_old_requests now s; cfg = rl_config s1 in
      if int (length (minute_requests s1)) \<ge> requests_per_minute cfg then
        (case py_min (minute_requests s1) of
           Inl e \<Rightarrow> (Inl e, s1)
         | Inr oldest \<Rightarrow> (Inr (False, minute_limit_exceeded (60 - (now - oldest))), s1))
      else if int (length (hour_requests s1)) \<ge> requests_per_hour cfg then
        (case py_min (hour_requests s1) of
           Inl e \<Rightarrow> (Inl e, s1)
         | Inr oldest \<Rightarrow> (Inr (False, hour_limit_exceeded (3600 - (now - oldest))), s1))
      else
        (let s2 = refill_tokens now s1 in
         if tokens s2 < cost then
           (Inr (False, burst_limit_exceeded (cooldown_seconds cfg) (tokens s2)), s2)
         else
           (let s3 = s2\<lparr>tokens := tokens s2 - cost,
                         minute_requests := minute_requests s2 @ [now],
                         hour_requests := hour_requests s2 @ [now]\<rparr>
            in (Inr (True,
                     granted (requests_per_minute cfg - int (length (minute_requests s3)))
                             (requests_per_hour cfg - int (length (hour_requests s3)))
                             (tokens s3)),
                s3))))"

text \<open>A call passes both sliding-window checks when neither window is full after pruning.\<close>

definition passes_windows :: "timestamp \<Rightarrow> RateLimiter \<Rightarrow> bool" where
  "passes_windows now s =
     (let s1 = cleanup_old_requests now s in
      int (length (minute_requests s1)) < requests_per_minute (rl_config s1) \<and>
      int (length (hour_requests s1)) < requests_per_hour (rl_config s1))"

text \<open>A series of calls, each with its cost and the clock reading it takes.\<close>

fun run_calls :: "(int \<times> timestamp) list \<Rightarrow> RateLimiter \<Rightarrow> RateLimiter list" where
  "run_calls [] s = []"
| "run_calls ((cost, now) # cs) s =
     (let s' = snd (is_allowed cost now s) in s' # run_calls cs s')"

text \<open>The policy registered for \<open>gemini_api\<close> in \<open>_get_rate_config\<close>.\<close>

definition gemini_rate_config :: RateLimitConfig where
  "gemini_rate_config =
     \<lparr>requests_per_minute = 30, requests_per_hour = 500,
      burst_allowance = 5, cooldown_seconds = 45\<rparr>"

section \<open>utils/rate\_limiter.py: CircuitBreaker\<close>

datatype CircuitState = CLOSED | OPEN | HALF_OPEN

record CircuitBreakerConfig =
  failure_threshold :: int
  recovery_timeout :: int
  half_open_max_calls :: int
  success_threshold :: int

text \<open>The \<open>name\<close> attribute only appears in log and error messages and is left out.\<close>

record CircuitBreaker =
  cb_config :: CircuitBreakerConfig
  state :: CircuitState
  failure_count :: int
  success_count :: int
  last_failure_time :: "timestamp option"
  half_open_calls :: int

definition CircuitBreaker_init :: "CircuitBreakerConfig \<Rightarrow> CircuitBreaker" where
  "CircuitBreaker_init cfg =
     \<lparr>cb_config = cfg, state = CLOSED, failure_count = 0, success_count = 0,
      last_failure_time = None, half_open_calls = 0\<rparr>"

text \<open>
  \<open>not self.last_failure_time\<close> is true for \<open>None\<close> and for the float \<open>0.0\<close>.
\<close>

definition should_attempt_reset :: "timestamp \<Rightarrow> CircuitBreaker \<Rightarrow> bool" where
  "should_attempt_reset now s =
     (case last_failure_time s of
        None \<Rightarrow> True
      | Some t \<Rightarrow> if t = 0 then True
                  else now - t \<ge> of_int (recovery_timeout (cb_config s)))"

definition seconds_until_retry :: "timestamp \<Rightarrow> CircuitBreaker \<Rightarrow> rat" where
  "seconds_until_retry now s =
     (case last_failure_time s of
        None \<Rightarrow> 0
      | Some t \<Rightarrow> if t = 0 then 0
                  else max 0 (of_int (recovery_timeout (cb_config s)) - (now - t)))"

definition reset_circuit :: "CircuitBreaker \<Rightarrow> CircuitBreaker" where
  "reset_circuit s =
     s\<lparr>state := CLOSED, failure_count := 0, success_count := 0, half_open_calls := 0\<rparr>"

definition on_success :: "CircuitBreaker \<Rightarrow> CircuitBreaker" where
  "on_success s =
     (if state s = HALF_OPEN then
        (let s1 = s\<lparr>success_count := success_count s + 1\<rparr> in
         if success_count s1 \<ge> success_threshold (cb_config s1) then reset_circuit s1 else s1)
      else if state s = CLOSED then s\<lparr>failure_count := 0\<rparr>
      else s)"

text \<open>\<open>later\<close> is the clock reading taken inside \<open>_on_failure\<close>.\<close>

definition on_failure :: "timestamp \<Rightarrow> CircuitBreaker \<Rightarrow> CircuitBreaker" where
  "on_failure later s =
     (let s1 = s\<lparr>failure_count := failure_count s + 1, last_failure_time := Some later\<rparr> in
      if failure_count s1 \<ge> failure_threshold (cb_config s1) then s1\<lparr>state := OPEN\<rparr> else s1)"

text \<open>
  \<open>CircuitBreaker.call\<close>. The wrapped function acts on an outside world \<open>'w\<close> and either
  returns a value or raises; \<open>now\<close> is the clock reading of \<open>_should_attempt_reset\<close>.
  The result holds what the call returns or raises, the world and the breaker afterwards.
  The handler is \<open>except Exception\<close>: a raise it does not catch leaves the breaker
  without \<open>_on_success\<close> and without \<open>_on_failure\<close>.
\<close>

definition call ::
  "timestamp \<Rightarrow> timestamp \<Rightarrow> ('w \<Rightarrow> (exn + 'a) \<times> 'w) \<Rightarrow> 'w \<Rightarrow> CircuitBreaker
     \<Rightarrow> (exn + 'a) \<times> 'w \<times> CircuitBreaker" where
  "call now later func w s =
     (if state s = OPEN \<and> \<not> should_attempt_reset now s then
        (Inl CircuitBreakerOpenError, w, s)
      else
        (let s1 = (if state s = OPEN then s\<lparr>state := HALF_OPEN, half_open_calls := 0\<rparr>
                   else s) in
         if state s1 = HALF_OPEN \<and>
            half_open_calls s1 \<ge> half_open_max_calls (cb_config s1) then
           (Inl CircuitBreakerOpenError, w, s1)
         else
           (let s2 = (if state s1 = HALF_OPEN
                      then s1\<lparr>half_open_calls := half_open_calls s1 + 1\<rparr> else s1) in
            case func w of
              (Inr result, w') \<Rightarrow> (Inr result, w', on_success s2)
            | (Inl e, w') \<Rightarrow>
                if is_Exception e then (Inl e, w', on_failure later s2)
                else (Inl e, w', s2))))"

text \<open>
  The breaker on its own: one call whose action, if it is invoked, returns
  (\<open>succeeded\<close>), raises an \<open>Exception\<close> (\<open>failed\<close>) or is cancelled (\<open>cancelled\<close>).
\<close>

datatype outcome = succeeded | failed | cancelled

fun action_of :: "outcome \<Rightarrow> unit \<Rightarrow> (exn + unit) \<times> unit" where
  "action_of succeeded w = (Inr (), w)"
| "action_of failed w = (Inl (ApiError []), w)"
| "action_of cancelled w = (Inl CancelledError, w)"

definition breaker_step ::
  "timestamp \<Rightarrow> timestamp \<Rightarrow> outcome \<Rightarrow> CircuitBreaker \<Rightarrow> CircuitBreaker" where
  "breaker_step now later out s = snd (snd (call now later (action_of out) () s))"

fun run ::
  "(timestamp \<times> timestamp \<times> outcome) list \<Rightarrow> CircuitBreaker \<Rightarrow> CircuitBreaker" where
  "run [] s = s"
| "run ((now, later, out) # evs) s = run evs (breaker_step now later out s)"

text \<open>The breakers some series of calls produces from a new one.\<close>

inductive reachable :: "CircuitBreakerConfig \<Rightarrow> CircuitBreaker \<Rightarrow> bool" for cfg where
  reachable_init: "reachable cfg (CircuitBreaker_init cfg)"
| reachable_step: "reachable cfg s \<Longrightarrow> reachable cfg (breaker_step now later out s)"

text \<open>
  The breakers produced by calls none of whose actions was cancelled, and the series
  of calls of that kind.
\<close>

inductive reachable_settled :: "CircuitBreakerConfig \<Rightarrow> CircuitBreaker \<Rightarrow> bool" for cfg where
  settled_init: "reachable_settled cfg (CircuitBreaker_init cfg)"
| settled_step: "reachable_settled cfg s \<Longrightarrow> out \<noteq> cancelled \<Longrightarrow>
     reachable_settled cfg (breaker_step now later out s)"

fun settled :: "(timestamp \<times> timestamp \<times> outcome) list \<Rightarrow> bool" where
  "settled [] = True"
| "settled ((now, later, out) # evs) = (out \<noteq> cancelled \<and> settled evs)"

text \<open>An action that counts its invocations and then succeeds or raises.\<close>

definition counting :: "bool \<Rightarrow> nat \<Rightarrow> (exn + string) \<times> nat" where
  "counting ok n = (if ok then Inr ''done'' else Inl (ApiError ''boom''), Suc n)"

text \<open>The policies of \<open>ProductionAPIManager\<close>.\<close>

definition default_rate_config :: RateLimitConfig where
  "default_rate_config =
     \<lparr>requests_per_minute = 50, requests_per_hour = 800,
      burst_allowance = 8, cooldown_seconds = 30\<rparr>"

definition default_circuit_config :: CircuitBreakerConfig where
  "default_circuit_config =
     \<lparr>failure_threshold = 3, recovery_timeout = 45,
      half_open_max_calls = 2, success_threshold = 2\<rparr>"

definition get_rate_config :: "string \<Rightarrow> RateLimitConfig" where
  "get_rate_config service_name =
     (if service_name = ''gemini_api'' then gemini_rate_config
      else if service_name = ''web_scraping'' then
        \<lparr>requests_per_minute = 20, requests_per_hour = 400,
         burst_allowance = 3, cooldown_seconds = 60\<rparr>
      else if service_name = ''vector_store'' then
        \<lparr>requests_per_minute = 100, requests_per_hour = 2000,
         burst_allowance = 20, cooldown_seconds = 10\<rparr>
      else default_rate_config)"

definition get_circuit_config :: "string \<Rightarrow> CircuitBreakerConfig" where
  "get_circuit_config service_name =
     (if service_name = ''gemini_api'' then
        \<lparr>failure_threshold = 2, recovery_timeout = 120,
         half_open_max_calls = 1, success_threshold = 1\<rparr>
      else if service_name = ''web_scraping'' then
        \<lparr>failure_threshold = 4, recovery_timeout = 60,
         half_open_max_calls = 3, success_threshold = 2\<rparr>
      else default_circuit_config)"

record ProductionAPIManager =
  rate_limiters :: "string \<rightharpoonup> RateLimiter"
  circuit_breakers :: "string \<rightharpoonup> CircuitBreaker"

definition ProductionAPIManager_init :: ProductionAPIManager where
  "ProductionAPIManager_init = \<lparr>rate_limiters = Map.empty, circuit_breakers = Map.empty\<rparr>"

text \<open>\<open>t0\<close> is the clock reading a newly made limiter takes in its constructor.\<close>

definition get_rate_limiter ::
  "string \<Rightarrow> timestamp \<Rightarrow> ProductionAPIManager \<Rightarrow> RateLimiter \<times> ProductionAPIManager" where
  "get_rate_limiter service_name t0 m =
     (case rate_limiters m service_name of
        None \<Rightarrow>
          (let rl = RateLimiter_init (get_rate_config service_name) t0
           in (rl, m\<lparr>rate_limiters := (rate_limiters m)(service_name \<mapsto> rl)\<rparr>))
      | Some rl \<Rightarrow> (rl, m))"

definition get_circuit_breaker ::
  "string \<Rightarrow> ProductionAPIManager \<Rightarrow> CircuitBreaker \<times> ProductionAPIManager" where
  "get_circuit_breaker service_name m =
     (case circuit_breakers m service_name of
        None \<Rightarrow>
          (let cb = CircuitBreaker_init (get_circuit_config service_name)
           in (cb, m\<lparr>circuit_breakers := (circuit_breakers m)(service_name \<mapsto> cb)\<rparr>))
      | Some cb \<Rightarrow> (cb, m))"

section \<open>utils/cache.py: PerformanceCache\<close>

text \<open>
  A cache file holds the pickled dictionary of \<open>data\<close> and \<open>timestamp\<close>, or cannot be
  read back. The directory is a map from cache keys to files: the path of a key is
  the directory joined with the key and the suffix \<open>.cache\<close>.
\<close>

datatype cache_file = Pickled string timestamp | Unreadable

record PerformanceCache =
  ttl :: int
  memory_cache :: "string \<rightharpoonup> string \<times> timestamp"
  cache_dir :: "string \<rightharpoonup> cache_file"

definition PerformanceCache_init :: "int \<Rightarrow> PerformanceCache" where
  "PerformanceCache_init ttl0 =
     \<lparr>ttl = ttl0, memory_cache = Map.empty, cache_dir = Map.empty\<rparr>"

definition is_expired :: "PerformanceCache \<Rightarrow> timestamp \<Rightarrow> timestamp \<Rightarrow> bool" where
  "is_expired c now t = (now - t > of_int (ttl c))"

text \<open>
  \<open>get_cache_key\<close> is the MD5 digest of the JSON text of the key dictionary. The digest
  is a parameter \<open>K\<close> of the model, applied to the prompt hash.
\<close>

definition get_api_response ::
  "(string \<Rightarrow> string) \<Rightarrow> timestamp \<Rightarrow> string \<Rightarrow> PerformanceCache
     \<Rightarrow> string option \<times> PerformanceCache" where
  "get_api_response K now prompt_hash c =
     (let cache_key = K prompt_hash;
          hit = (case memory_cache c cache_key of
                   None \<Rightarrow> None
                 | Some (d, t) \<Rightarrow> if \<not> is_expired c now t then Some d else None);
          c1 = (case memory_cache c cache_key of
                  None \<Rightarrow> c
                | Some (d, t) \<Rightarrow>
                    if \<not> is_expired c now t then c
                    else c\<lparr>memory_cache := (memory_cache c)(cache_key := None)\<rparr>)
      in case hit of
           Some d \<Rightarrow> (Some d, c1)
         | None \<Rightarrow>
             (case cache_dir c1 cache_key of
                None \<Rightarrow> (None, c1)
              | Some Unreadable \<Rightarrow> (None, c1)
              | Some (Pickled d t) \<Rightarrow>
                  if \<not> is_expired c1 now t then
                    (Some d, c1\<lparr>memory_cache := (memory_cache c1)(cache_key \<mapsto> (d, t))\<rparr>)
                  else
                    (None, c1\<lparr>cache_dir := (cache_dir c1)(cache_key := None)\<rparr>)))"

text \<open>The write to the file is taken to succeed.\<close>

definition set_api_response ::
  "(string \<Rightarrow> string) \<Rightarrow> timestamp \<Rightarrow> string \<Rightarrow> string \<Rightarrow> PerformanceCache
     \<Rightarrow> PerformanceCache" where
  "set_api_response K now prompt_hash response c =
     (let cache_key = K prompt_hash; timestamp = now
      in c\<lparr>memory_cache := (memory_cache c)(cache_key \<mapsto> (response, timestamp)),
           cache_dir := (cache_dir c)(cache_key \<mapsto> Pickled response timestamp)\<rparr>)"

subsection \<open>The cache as the specification words it\<close>

text \<open>
  The specification's \<open>ResponseCache\<close>: every entry carries the \<open>ttlSeconds\<close> given to
  \<open>Set\<close>, and a durable entry is fresh while \<open>now - createdAt < ttlSeconds\<close>.
\<close>

record CacheEntry =
  entry_value :: string
  createdAt :: timestamp
  ttlSeconds :: int

record ResponseCache =
  fast_tier :: "string \<rightharpoonup> CacheEntry"
  durable_tier :: "string \<rightharpoonup> CacheEntry"

definition spec_Set ::
  "string \<Rightarrow> string \<Rightarrow> int \<Rightarrow> timestamp \<Rightarrow> ResponseCache \<Rightarrow> ResponseCache" where
  "spec_Set key v ttl_seconds now c =
     (let e = \<lparr>entry_value = v, createdAt = now, ttlSeconds = ttl_seconds\<rparr>
      in c\<lparr>fast_tier := (fast_tier c)(key \<mapsto> e),
           durable_tier := (durable_tier c)(key \<mapsto> e)\<rparr>)"

definition spec_fresh :: "timestamp \<Rightarrow> CacheEntry \<Rightarrow> bool" where
  "spec_fresh now e = (now - createdAt e < of_int (ttlSeconds e))"

definition spec_Get ::
  "string \<Rightarrow> timestamp \<Rightarrow> ResponseCache \<Rightarrow> string option \<times> ResponseCache" where
  "spec_Get key now c =
     (let c1 = (case fast_tier c key of
                  None \<Rightarrow> c
                | Some e \<Rightarrow> if spec_fresh now e then c
                            else c\<lparr>fast_tier := (fast_tier c)(key := None)\<rparr>)
      in case fast_tier c1 key of
           Some e \<Rightarrow> (Some (entry_value e), c1)
         | None \<Rightarrow>
             (case durable_tier c1 key of
                None \<Rightarrow> (None, c1)
              | Some e \<Rightarrow>
                  if spec_fresh now e then
                    (Some (entry_value e), c1\<lparr>fast_tier := (fast_tier c1)(key \<mapsto> e)\<rparr>)
                  else
                    (None, c1\<lparr>durable_tier := (durable_tier c1)(key := None)\<rparr>)))"

section \<open>integrations/gemini\_client.py: generate\_response\<close>

text \<open>
  What \<open>generate_response\<close> returns is a Python string. The constructors keep apart
  the return statements that build it: a response text (cached or new),
  \<open>"Rate limit exceeded. Retry after {retry_after} seconds."\<close>,
  \<open>"Service temporarily unavailable. Using fallback response."\<close> and
  \<open>"Error: Unable to generate response - {e}"\<close>.
\<close>

datatype reply =
    response_text string
  | rate_limit_notice rat
  | unavailable_notice
  | error_notice exn

text \<open>The clock readings one request takes, named by the place that takes them.\<close>

record clock =
  at_init :: timestamp
  at_limit :: timestamp
  at_lookup :: timestamp
  at_call :: timestamp
  at_failure :: timestamp
  at_fallback :: timestamp
  at_store :: timestamp

text \<open>The module-level objects \<open>api_manager\<close> and \<open>performance_cache\<close>.\<close>

record system =
  api_manager :: ProductionAPIManager
  performance_cache :: PerformanceCache

text \<open>\<open>if cached_response:\<close> holds for a string that is not empty.\<close>

fun truthy :: "string option \<Rightarrow> bool" where
  "truthy None = False"
| "truthy (Some v) = (v \<noteq> [])"

definition full_prompt_of :: "string \<Rightarrow> string option \<Rightarrow> string" where
  "full_prompt_of prompt system_prompt =
     (if truthy system_prompt
      then ''SYSTEM: '' @ the system_prompt @ [CHR 0x0A, CHR 0x0A] @ ''USER: '' @ prompt
      else prompt)"

text \<open>
  The second \<open>try\<close> block of \<open>generate_response\<close>: the cache, then the breaker around
  the call to the model, then the write to the cache. \<open>H\<close> is the MD5 digest of the
  prompt, the temperature and the token limit; \<open>api\<close> is \<open>_make_api_call\<close>, acting on
  the outside world. The imports inside the function are taken to succeed, so an
  \<open>ImportError\<close> in the handler of the breaker's call is one the action raised: the
  handler then calls the model directly. The outer handler is \<open>except Exception\<close>.
\<close>

text \<open>Lines 195 to 204: the write to the cache and the return of the new response.\<close>

definition store_and_return ::
  "(string \<Rightarrow> string) \<Rightarrow> clock \<Rightarrow> string \<Rightarrow> bool \<Rightarrow> string \<Rightarrow> 'w \<Rightarrow> system
     \<Rightarrow> (exn + reply) \<times> 'w \<times> system" where
  "store_and_return K clk prompt_hash use_cache response w sys =
     (Inr (response_text response), w,
      if use_cache
      then sys\<lparr>performance_cache :=
             set_api_response K (at_store clk) prompt_hash response (performance_cache sys)\<rparr>
      else sys)"

definition protected_call ::
  "(string \<Rightarrow> rat \<Rightarrow> int \<Rightarrow> string) \<Rightarrow> (string \<Rightarrow> string)
     \<Rightarrow> (string \<Rightarrow> rat \<Rightarrow> int \<Rightarrow> 'w \<Rightarrow> (exn + string) \<times> 'w) \<Rightarrow> clock
     \<Rightarrow> string \<Rightarrow> rat \<Rightarrow> int \<Rightarrow> string option \<Rightarrow> bool \<Rightarrow> 'w \<Rightarrow> system
     \<Rightarrow> (exn + reply) \<times> 'w \<times> system" where
  "protected_call H K api clk prompt temperature max_tokens system_prompt use_cache w sys =
     (let full_prompt = full_prompt_of prompt system_prompt;
          prompt_hash = H full_prompt temperature max_tokens;
          (cached, c1) =
            (if use_cache
             then get_api_response K (at_lookup clk) prompt_hash (performance_cache sys)
             else (None, performance_cache sys));
          sys1 = sys\<lparr>performance_cache := c1\<rparr>
      in if truthy cached then (Inr (response_text (the cached)), w, sys1)
         else
           (let (cb, m1) = get_circuit_breaker ''gemini_api'' (api_manager sys1);
                (res, w', cb') =
                  call (at_call clk) (at_failure clk)
                    (api full_prompt temperature max_tokens) w cb;
                sys2 = sys1\<lparr>api_manager :=
                         m1\<lparr>circuit_breakers := (circuit_breakers m1)(''gemini_api'' \<mapsto> cb')\<rparr>\<rparr>
            in case res of
                 Inl CircuitBreakerOpenError \<Rightarrow>
                   (let (cached2, c2) =
                          (if use_cache
                           then get_api_response K (at_fallback clk) prompt_hash
                                  (performance_cache sys2)
                           else (None, performance_cache sys2));
                        sys3 = sys2\<lparr>performance_cache := c2\<rparr>
                    in if truthy cached2 then (Inr (response_text (the cached2)), w', sys3)
                       else (Inr unavailable_notice, w', sys3))
               | Inl ImportError \<Rightarrow>
                   (case api full_prompt temperature max_tokens w' of
                      (Inr response, w'') \<Rightarrow>
                        store_and_return K clk prompt_hash use_cache response w'' sys2
                    | (Inl e, w'') \<Rightarrow>
                        if is_Exception e then (Inr (error_notice e), w'', sys2)
                        else (Inl e, w'', sys2))
               | Inl e \<Rightarrow>
                   if is_Exception e then (Inr (error_notice e), w', sys2)
                   else (Inl e, w', sys2)
               | Inr response \<Rightarrow>
                   store_and_return K clk prompt_hash use_cache response w' sys2))"

definition generate_response ::
  "(string \<Rightarrow> rat \<Rightarrow> int \<Rightarrow> string) \<Rightarrow> (string \<Rightarrow> string)
     \<Rightarrow> (string \<Rightarrow> rat \<Rightarrow> int \<Rightarrow> 'w \<Rightarrow> (exn + string) \<times> 'w) \<Rightarrow> clock
     \<Rightarrow> string \<Rightarrow> rat \<Rightarrow> int \<Rightarrow> string option \<Rightarrow> bool \<Rightarrow> 'w \<Rightarrow> system
     \<Rightarrow> (exn + reply) \<times> 'w \<times> system" where
  "generate_response H K api clk prompt temperature max_tokens system_prompt use_cache w sys =
     (let (rl, m1) = get_rate_limiter ''gemini_api'' (at_init clk) (api_manager sys);
          (verdict, rl') = is_allowed 1 (at_limit clk) rl;
          sys1 = sys\<lparr>api_manager :=
                   m1\<lparr>rate_limiters := (rate_limiters m1)(''gemini_api'' \<mapsto> rl')\<rparr>\<rparr>
      in case verdict of
           Inl e \<Rightarrow> (Inl e, w, sys1)
         | Inr (allowed, info) \<Rightarrow>
             if \<not> allowed then
               (let (cached, c1) =
                      (if use_cache
                       then get_api_response K (at_lookup clk)
                              (H prompt temperature max_tokens) (performance_cache sys1)
                       else (None, performance_cache sys1));
                    sys2 = sys1\<lparr>performance_cache := c1\<rparr>
                in if truthy cached then (Inr (response_text (the cached)), w, sys2)
                   else (Inr (rate_limit_notice (retry_after info)), w, sys2))
             else
               protected_call H K api clk prompt temperature max_tokens system_prompt
                 use_cache w sys1)"

section \<open>Invariants and sample states\<close>

text \<open>Outside CLOSED the failure count has reached the threshold.\<close>

definition tripped :: "CircuitBreaker \<Rightarrow> bool" where
  "tripped s = (state s \<noteq> CLOSED \<longrightarrow> failure_threshold (cb_config s) \<le> failure_count s)"

text \<open>While HALF\_OPEN, every admitted call so far succeeded without closing the circuit.\<close>

definition probing :: "CircuitBreaker \<Rightarrow> bool" where
  "probing s = (0 \<le> success_count s \<and>
     (state s = HALF_OPEN \<longrightarrow> half_open_calls s \<le> success_count s \<and>
        success_count s < success_threshold (cb_config s)))"

text \<open>The \<open>gemini_api\<close> limiter after five calls at its time of creation.\<close>

definition drained_limiter :: RateLimiter where
  "drained_limiter =
     last (run_calls [(1, 0), (1, 0), (1, 0), (1, 0), (1, 0)]
             (RateLimiter_init gemini_rate_config 0))"

text \<open>A policy that asks for more successful probes than it admits.\<close>

definition sparse_probe_config :: CircuitBreakerConfig where
  "sparse_probe_config =
     \<lparr>failure_threshold = 2, recovery_timeout = 120,
      half_open_max_calls = 1, success_threshold = 2\<rparr>"

definition trapped_breaker :: CircuitBreaker where
  "trapped_breaker =
     run [(1, 1, failed), (2, 2, failed), (200, 200, succeeded)]
       (CircuitBreaker_init sparse_probe_config)"

text \<open>The \<open>gemini_api\<close> breaker after two failures and a probe that was cancelled.\<close>

definition cancelled_probe_breaker :: CircuitBreaker where
  "cancelled_probe_breaker =
     run [(1, 1, failed), (2, 2, failed), (200, 200, cancelled)]
       (CircuitBreaker_init (get_circuit_config ''gemini_api''))"

text \<open>A breaker under the default policy after three failures, and after one probe.\<close>

definition opened_breaker :: CircuitBreaker where
  "opened_breaker =
     run [(1, 1, failed), (2, 2, failed), (3, 3, failed)]
       (CircuitBreaker_init default_circuit_config)"

definition probed_breaker :: CircuitBreaker where
  "probed_breaker = run [(50, 50, succeeded)] opened_breaker"

text \<open>An action that counts its invocations and then raises the given exception.\<close>

definition raising :: "exn \<Rightarrow> nat \<Rightarrow> (exn + string) \<times> nat" where
  "raising e n = (Inl e, Suc n)"

text \<open>
  Sample surroundings of a request: a clock that reads \<open>t\<close> throughout, digests that
  return their argument, a process that has just started, and one whose
  \<open>gemini_api\<close> limiter is drained.
\<close>

definition reading :: "timestamp \<Rightarrow> clock" where
  "reading t =
     \<lparr>at_init = t, at_limit = t, at_lookup = t, at_call = t, at_failure = t,
      at_fallback = t, at_store = t\<rparr>"

definition plain_hash :: "string \<Rightarrow> rat \<Rightarrow> int \<Rightarrow> string" where
  "plain_hash p t m = p"

definition plain_key :: "string \<Rightarrow> string" where
  "plain_key h = h"

definition started_system :: system where
  "started_system =
     \<lparr>api_manager = ProductionAPIManager_init,
      performance_cache = PerformanceCache_init 3600\<rparr>"



definition empty_ResponseCache :: ResponseCache where
  "empty_ResponseCache = \<lparr>fast_tier = Map.empty, durable_tier = Map.empty\<rparr>"

section \<open>The rate limiter\<close>

text \<open>
  C1 (amended). A call to \<open>is_allowed\<close> that passes both sliding-window checks sets
  \<open>last_refill\<close> to \<open>now\<close> and credits whole tokens only: the token count becomes
  \<open>min burst_allowance (tokens + int (elapsed * requests_per_minute / 60))\<close> with
  \<open>elapsed = now - last_refill\<close>, less the cost when the call is then granted.
\<close>

theorem is_allowed_refill_truncates:
  assumes "passes_windows now s"
  shows "last_refill (snd (is_allowed cost now s)) = now \<and>
         tokens (snd (is_allowed cost now s)) =
           (let refilled = min (burst_allowance (rl_config s))
                (tokens s + py_int ((now - last_refill s)
                     * of_int (requests_per_minute (rl_config s)) / 60))
            in if refilled < cost then refilled else refilled - cost)"
  using assms
  by (simp add: passes_windows_def is_allowed_def
      cleanup_old_requests_def refill_tokens_def Let_def)

theorem is_allowed_refill_truncates_witness:
  "passes_windows 7 drained_limiter \<and>
   last_refill (snd (is_allowed 1 7 drained_limiter)) = 7 \<and>
   tokens (snd (is_allowed 1 7 drained_limiter)) = 2"
proof -
  have h: "passes_windows 7 drained_limiter"
    unfolding drained_limiter_def by code_simp
  have v: "(let refilled = min (burst_allowance (rl_config drained_limiter))
                (tokens drained_limiter + py_int ((7 - last_refill drained_limiter)
                     * of_int (requests_per_minute (rl_config drained_limiter)) / 60))
            in if refilled < 1 then refilled else refilled - 1) = 2"
    unfolding drained_limiter_def by code_simp
  from is_allowed_refill_truncates [OF h, of 1] have
    "last_refill (snd (is_allowed 1 7 drained_limiter)) = 7"
    "tokens (snd (is_allowed 1 7 drained_limiter)) =
       (let refilled = min (burst_allowance (rl_config drained_limiter))
                (tokens drained_limiter + py_int ((7 - last_refill drained_limiter)
                     * of_int (requests_per_minute (rl_config drained_limiter)) / 60))
            in if refilled < 1 then refilled else refilled - 1)"
    by blast+
  with h v show ?thesis by (simp only:)
qed

text \<open>
  The drained \<open>gemini_api\<close> limiter one second later: half a token is due, none is
  credited, and the half is lost since \<open>last_refill\<close> moves on. A second later the
  count is still 0.
\<close>

theorem refill_not_continuous_counterexample:
  "passes_windows 1 drained_limiter \<and>
   tokens drained_limiter = 0 \<and> last_refill drained_limiter = 0 \<and>
   tokens (snd (is_allowed 1 1 drained_limiter)) = 0 \<and>
   last_refill (snd (is_allowed 1 1 drained_limiter)) = 1 \<and>
   rat_of_int (tokens (snd (is_allowed 1 1 drained_limiter))) \<noteq>
     min (rat_of_int (burst_allowance (rl_config drained_limiter)))
         (rat_of_int (tokens drained_limiter)
          + (1 - last_refill drained_limiter)
            * rat_of_int (requests_per_minute (rl_config drained_limiter)) / 60) \<and>
   tokens (snd (is_allowed 1 2 (snd (is_allowed 1 1 drained_limiter)))) = 0"
  unfolding drained_limiter_def by code_simp

lemma py_int_nonneg: "0 \<le> x \<Longrightarrow> 0 \<le> py_int x"
  by (simp add: py_int_def)

lemma is_allowed_config: "rl_config (snd (is_allowed cost now s)) = rl_config s"
  by (simp add: is_allowed_def cleanup_old_requests_def refill_tokens_def Let_def
      split: sum.splits)

lemma is_allowed_last_refill:
  "last_refill s \<le> now \<Longrightarrow> last_refill (snd (is_allowed cost now s)) \<le> now"
  by (simp add: is_allowed_def cleanup_old_requests_def refill_tokens_def Let_def
      split: sum.splits)

lemma refill_amount_nonneg:
  assumes "last_refill s \<le> now" "0 < requests_per_minute (rl_config s)"
  shows "0 \<le> py_int ((now - last_refill s) * of_int (requests_per_minute (rl_config s)) / 60)"
proof -
  have "0 \<le> (now - last_refill s) * rat_of_int (requests_per_minute (rl_config s))"
    using assms by simp
  then have "0 \<le> (now - last_refill s) * rat_of_int (requests_per_minute (rl_config s)) / 60"
    by simp
  then show ?thesis by (rule py_int_nonneg)
qed

lemma is_allowed_tokens_upper:
  assumes "tokens s \<le> burst_allowance (rl_config s)" and "0 \<le> cost"
  shows "tokens (snd (is_allowed cost now s)) \<le> burst_allowance (rl_config s)"
  using assms
  by (auto simp add: is_allowed_def cleanup_old_requests_def refill_tokens_def Let_def
      split: sum.splits)

lemma is_allowed_tokens_lower:
  assumes "0 \<le> tokens s" and "0 \<le> burst_allowance (rl_config s)"
    and "last_refill s \<le> now"
  shows "0 \<le> tokens (snd (is_allowed cost now s))"
proof (cases "passes_windows now s")
  case False
  then have "tokens (snd (is_allowed cost now s)) = tokens s"
    by (auto simp add: passes_windows_def is_allowed_def cleanup_old_requests_def Let_def
        split: sum.splits)
  with assms show ?thesis by simp
next
  case True
  then have "0 < requests_per_minute (rl_config s)"
    by (simp add: passes_windows_def cleanup_old_requests_def Let_def)
  with assms have add: "0 \<le> py_int ((now - last_refill s)
      * of_int (requests_per_minute (rl_config s)) / 60)"
    by (simp add: refill_amount_nonneg)
  from True have "tokens (snd (is_allowed cost now s)) =
           (let refilled = min (burst_allowance (rl_config s))
                (tokens s + py_int ((now - last_refill s)
                     * of_int (requests_per_minute (rl_config s)) / 60))
            in if refilled < cost then refilled else refilled - cost)"
    by (simp add: passes_windows_def is_allowed_def
      cleanup_old_requests_def refill_tokens_def Let_def)
  with add assms show ?thesis by (simp add: Let_def min_def)
qed

lemma run_calls_upper:
  "tokens s \<le> burst_allowance (rl_config s) \<Longrightarrow> \<forall>c \<in> set calls. 0 \<le> fst c \<Longrightarrow>
   \<forall>s' \<in> set (run_calls calls s). tokens s' \<le> burst_allowance (rl_config s)"
proof (induction calls arbitrary: s)
  case Nil
  then show ?case by simp
next
  case (Cons c cs)
  obtain cost now where c: "c = (cost, now)" by (cases c)
  let ?s' = "snd (is_allowed cost now s)"
  from Cons.prems c have cost: "0 \<le> cost" by simp
  have b: "tokens ?s' \<le> burst_allowance (rl_config s)"
    using Cons.prems(1) cost by (rule is_allowed_tokens_upper)
  moreover have "\<forall>c \<in> set cs. 0 \<le> fst c" using Cons.prems(2) by simp
  ultimately have "\<forall>s'' \<in> set (run_calls cs ?s').
      tokens s'' \<le> burst_allowance (rl_config ?s')"
    using Cons.IH [of ?s'] by (simp add: is_allowed_config)
  with b show ?case by (simp add: c is_allowed_config Let_def)
qed

lemma run_calls_lower:
  "0 \<le> tokens s \<Longrightarrow> 0 \<le> burst_allowance (rl_config s) \<Longrightarrow>
   sorted (last_refill s # map snd calls) \<Longrightarrow>
   \<forall>s' \<in> set (run_calls calls s). 0 \<le> tokens s'"
proof (induction calls arbitrary: s)
  case Nil
  then show ?case by simp
next
  case (Cons c cs)
  obtain cost now where c: "c = (cost, now)" by (cases c)
  let ?s' = "snd (is_allowed cost now s)"
  from Cons.prems c have le: "last_refill s \<le> now" by simp
  have b: "0 \<le> tokens ?s'"
    using Cons.prems(1,2) le by (rule is_allowed_tokens_lower)
  have lr: "last_refill ?s' \<le> now" using le by (rule is_allowed_last_refill)
  have "sorted (last_refill ?s' # map snd cs)"
    using Cons.prems(3) c lr by auto
  then have "\<forall>s'' \<in> set (run_calls cs ?s'). 0 \<le> tokens s''"
    using b Cons.prems(2) Cons.IH [of ?s'] by (simp add: is_allowed_config)
  with b show ?case by (simp add: c Let_def)
qed

text \<open>
  C4 (amended). From a new limiter, after every call of a series with non-negative
  costs the token count is at most the burst allowance, whether the calls are
  granted or denied and whatever the clock reads. It is at least 0 as well when the
  burst allowance is not negative and the clock readings of the calls never
  decrease, starting at the reading of the constructor.
\<close>

theorem tokens_within_burst:
  assumes "\<forall>c \<in> set calls. 0 \<le> fst c"
  shows "(\<forall>s \<in> set (run_calls calls (RateLimiter_init cfg t0)).
            tokens s \<le> burst_allowance cfg) \<and>
         (0 \<le> burst_allowance cfg \<and> sorted (t0 # map snd calls) \<longrightarrow>
            (\<forall>s \<in> set (run_calls calls (RateLimiter_init cfg t0)). 0 \<le> tokens s))"
  using run_calls_upper [of "RateLimiter_init cfg t0" calls]
    run_calls_lower [of "RateLimiter_init cfg t0" calls] assms
  by (simp add: RateLimiter_init_def)

theorem tokens_within_burst_witness:
  "tokens (last (run_calls [(1, 0), (3, 1), (9, 2), (0, 30)]
                        (RateLimiter_init gemini_rate_config 0)))
     \<le> burst_allowance gemini_rate_config \<and>
   0 \<le> burst_allowance gemini_rate_config \<and>
   sorted (0 # map snd [(1 :: int, 0), (3, 1), (9, 2), (0, 30 :: rat)]) \<and>
   0 \<le> tokens (last (run_calls [(1, 0), (3, 1), (9, 2), (0, 30)]
                        (RateLimiter_init gemini_rate_config 0)))"
proof -
  let ?calls = "[(1, 0), (3, 1), (9, 2), (0, 30)] :: (int \<times> rat) list"
  have h1: "0 \<le> burst_allowance gemini_rate_config"
    by (simp add: gemini_rate_config_def)
  have h2: "sorted (0 # map snd ?calls)" by simp
  have h3: "\<forall>c \<in> set ?calls. 0 \<le> fst c" by simp
  have "run_calls ?calls (RateLimiter_init gemini_rate_config 0) \<noteq> []"
    by (simp add: Let_def)
  then have m: "last (run_calls ?calls (RateLimiter_init gemini_rate_config 0))
     \<in> set (run_calls ?calls (RateLimiter_init gemini_rate_config 0))"
    by (rule last_in_set)
  from tokens_within_burst [OF h3, of gemini_rate_config 0] m h1 h2 show ?thesis by blast
qed

text \<open>
  The \<open>gemini_api\<close> limiter made and drained at clock reading 10, then called when
  the clock reads 7: \<open>int(-1.5)\<close> is \<open>-1\<close> and the token count becomes \<open>-1\<close>.
\<close>

theorem backward_clock_counterexample:
  "0 \<le> burst_allowance gemini_rate_config \<and>
   tokens (last (run_calls [(1, 10), (1, 10), (1, 10), (1, 10), (1, 10), (1, 7)]
                   (RateLimiter_init gemini_rate_config 10))) = - 1"
  by code_simp

text \<open>
  C10. A denial appends no timestamp and subtracts no cost: both windows are the old
  ones pruned. A denial by the minute or hour window leaves the token count and
  \<open>last_refill\<close> as they were; a denial for lack of tokens leaves the refilled count
  and sets \<open>last_refill\<close> to \<open>now\<close>.
\<close>

theorem denial_frame:
  assumes "is_allowed cost now s = (Inr (False, i), s')"
  shows "minute_requests s' = filter (\<lambda>t. t > now - 60) (minute_requests s) \<and>
         hour_requests s' = filter (\<lambda>t. t > now - 3600) (hour_requests s) \<and>
         rl_config s' = rl_config s \<and>
         (case i of
            burst_limit_exceeded c t \<Rightarrow>
              last_refill s' = now \<and> tokens s' < cost \<and>
              tokens s' = min (burst_allowance (rl_config s))
                (tokens s + py_int ((now - last_refill s)
                     * of_int (requests_per_minute (rl_config s)) / 60))
          | _ \<Rightarrow> tokens s' = tokens s \<and> last_refill s' = last_refill s)"
  using assms
  by (auto simp add: is_allowed_def cleanup_old_requests_def refill_tokens_def Let_def
      split: sum.splits if_splits)

theorem denial_frame_witness:
  "is_allowed 1 1 drained_limiter =
     (Inr (False, burst_limit_exceeded 45 0), snd (is_allowed 1 1 drained_limiter)) \<and>
   minute_requests (snd (is_allowed 1 1 drained_limiter)) =
     filter (\<lambda>t. t > 1 - 60) (minute_requests drained_limiter) \<and>
   hour_requests (snd (is_allowed 1 1 drained_limiter)) =
     filter (\<lambda>t. t > 1 - 3600) (hour_requests drained_limiter) \<and>
   last_refill (snd (is_allowed 1 1 drained_limiter)) = 1 \<and>
   tokens (snd (is_allowed 1 1 drained_limiter)) < 1"
proof -
  have h: "is_allowed 1 1 drained_limiter =
     (Inr (False, burst_limit_exceeded 45 0), snd (is_allowed 1 1 drained_limiter))"
    unfolding drained_limiter_def by code_simp
  from denial_frame [OF h] h show ?thesis by simp
qed

section \<open>The circuit breaker\<close>

lemma breaker_step_closed_fail:
  "state s = CLOSED \<Longrightarrow> breaker_step now later failed s = on_failure later s"
  by (simp add: breaker_step_def call_def)

lemma breaker_step_config: "cb_config (breaker_step now later out s) = cb_config s"
  by (cases out)
     (simp_all add: breaker_step_def call_def on_success_def on_failure_def reset_circuit_def
       Let_def)

lemma reachable_config: "reachable cfg s \<Longrightarrow> cb_config s = cfg"
  by (induction rule: reachable.induct)
     (simp_all add: CircuitBreaker_init_def breaker_step_config)

lemma reachable_run: "reachable cfg s \<Longrightarrow> reachable cfg (run evs s)"
  by (induction evs s rule: run.induct) (simp_all add: reachable_step)

lemma settled_reachable: "reachable_settled cfg s \<Longrightarrow> reachable cfg s"
  by (induction rule: reachable_settled.induct) (simp_all add: reachable_init reachable_step)

lemma reachable_settled_run:
  "reachable_settled cfg s \<Longrightarrow> settled evs \<Longrightarrow> reachable_settled cfg (run evs s)"
  by (induction evs s rule: run.induct) (simp_all add: settled_step)

lemma breaker_step_tripped: "tripped s \<Longrightarrow> tripped (breaker_step now later out s)"
  by (cases out)
     (auto simp add: tripped_def breaker_step_def call_def on_success_def on_failure_def
       reset_circuit_def Let_def)

lemma reachable_tripped: "reachable cfg s \<Longrightarrow> tripped s"
  by (induction rule: reachable.induct)
     (simp_all add: breaker_step_tripped, simp add: tripped_def CircuitBreaker_init_def)

lemma closed_failures_open:
  "state s = CLOSED \<Longrightarrow> failure_count s < failure_threshold (cb_config s) \<Longrightarrow>
   length evs = nat (failure_threshold (cb_config s) - failure_count s) \<Longrightarrow>
   \<forall>e \<in> set evs. snd (snd e) = failed \<Longrightarrow>
   state (run evs s) = OPEN"
proof (induction evs arbitrary: s)
  case Nil
  then show ?case by simp
next
  case (Cons e es)
  obtain now later out where e: "e = (now, later, out)" by (cases e)
  with Cons.prems have out: "out = failed" by simp
  let ?s' = "on_failure later s"
  have step: "run (e # es) s = run es ?s'"
    using e out Cons.prems(1) by (simp add: breaker_step_closed_fail)
  show ?case
  proof (cases "failure_count s + 1 \<ge> failure_threshold (cb_config s)")
    case True
    with Cons.prems(2) have "failure_threshold (cb_config s) - failure_count s = 1"
      by simp
    with Cons.prems(3) have "es = []" by simp
    moreover from True have "state ?s' = OPEN" by (simp add: on_failure_def Let_def)
    ultimately show ?thesis using step by simp
  next
    case False
    then have a: "state ?s' = CLOSED" "failure_count ?s' < failure_threshold (cb_config ?s')"
      "cb_config ?s' = cb_config s" "failure_count ?s' = failure_count s + 1"
      using Cons.prems(1) by (simp_all add: on_failure_def Let_def)
    have "length es = nat (failure_threshold (cb_config ?s') - failure_count ?s')"
      using Cons.prems(3) a by simp
    moreover have "\<forall>e \<in> set es. snd (snd e) = failed" using Cons.prems(4) by simp
    ultimately have "state (run es ?s') = OPEN" using a Cons.IH [of ?s'] by simp
    with step show ?thesis by simp
  qed
qed

lemma opened_breaker_eq:
  "opened_breaker = \<lparr>cb_config = default_circuit_config, state = OPEN, failure_count = 3,
     success_count = 0, last_failure_time = Some 3, half_open_calls = 0\<rparr>"
  unfolding opened_breaker_def by code_simp

lemma probed_breaker_eq:
  "probed_breaker = \<lparr>cb_config = default_circuit_config, state = HALF_OPEN, failure_count = 3,
     success_count = 1, last_failure_time = Some 3, half_open_calls = 1\<rparr>"
  unfolding probed_breaker_def opened_breaker_def by code_simp

text \<open>
  C5. With a threshold of at least one, \<open>failure_threshold\<close> failures in a row
  (actions that raise an \<open>Exception\<close>), counted from a CLOSED breaker whose failure
  count is 0, leave the breaker OPEN. A call to
  an OPEN breaker before \<open>recovery_timeout\<close> seconds have passed since the last
  failure raises \<open>CircuitBreakerOpenError\<close> and leaves the world and the breaker as
  they were, so the action is not invoked. Once that time has passed, and the policy
  admits at least one probe, the next call moves the breaker to HALF\_OPEN, counts
  the probe and invokes the action; what the action returns or raises is what the
  call returns or raises. (The time of the last failure is a reading of
  the clock other than \<open>0.0\<close>, which Python takes as false.)
\<close>

theorem breaker_opens_rejects_and_probes:
  "(state s = CLOSED \<and> failure_count s = 0 \<and> 1 \<le> failure_threshold (cb_config s) \<and>
    length evs = nat (failure_threshold (cb_config s)) \<and>
    (\<forall>e \<in> set evs. snd (snd e) = failed)
      \<longrightarrow> state (run evs s) = OPEN) \<and>
   (state s = OPEN \<and> last_failure_time s = Some t \<and> t \<noteq> 0 \<and>
    now - t < of_int (recovery_timeout (cb_config s))
      \<longrightarrow> call now later func w s = (Inl CircuitBreakerOpenError, w, s)) \<and>
   (state s = OPEN \<and> last_failure_time s = Some t \<and>
    now - t \<ge> of_int (recovery_timeout (cb_config s)) \<and> 1 \<le> half_open_max_calls (cb_config s)
      \<longrightarrow> call now later func w s =
            (let s2 = s\<lparr>state := HALF_OPEN, half_open_calls := 1\<rparr> in
             case func w of
               (Inr result, w') \<Rightarrow> (Inr result, w', on_success s2)
             | (Inl e, w') \<Rightarrow>
                 if is_Exception e then (Inl e, w', on_failure later s2)
                 else (Inl e, w', s2)))"
proof (intro conjI impI)
  assume "state s = CLOSED \<and> failure_count s = 0 \<and> 1 \<le> failure_threshold (cb_config s) \<and>
    length evs = nat (failure_threshold (cb_config s)) \<and>
    (\<forall>e \<in> set evs. snd (snd e) = failed)"
  then show "state (run evs s) = OPEN"
    using closed_failures_open [of s evs] by simp
next
  assume "state s = OPEN \<and> last_failure_time s = Some t \<and> t \<noteq> 0 \<and>
    now - t < of_int (recovery_timeout (cb_config s))"
  then show "call now later func w s = (Inl CircuitBreakerOpenError, w, s)"
    by (simp add: call_def should_attempt_reset_def)
next
  assume "state s = OPEN \<and> last_failure_time s = Some t \<and>
    now - t \<ge> of_int (recovery_timeout (cb_config s)) \<and> 1 \<le> half_open_max_calls (cb_config s)"
  then show "call now later func w s =
            (let s2 = s\<lparr>state := HALF_OPEN, half_open_calls := 1\<rparr> in
             case func w of
               (Inr result, w') \<Rightarrow> (Inr result, w', on_success s2)
             | (Inl e, w') \<Rightarrow>
                 if is_Exception e then (Inl e, w', on_failure later s2)
                 else (Inl e, w', s2))"
    by (simp add: call_def should_attempt_reset_def Let_def)
qed

theorem breaker_opens_rejects_and_probes_witness:
  "state (run [(1, 1, failed), (2, 2, failed), (3, 3, failed)]
            (CircuitBreaker_init default_circuit_config)) = OPEN \<and>
   call 10 10 (counting True) 0 opened_breaker
     = (Inl CircuitBreakerOpenError, 0, opened_breaker) \<and>
   call 50 50 (counting True) 0 opened_breaker = (Inr ''done'', 1, probed_breaker)"
proof -
  let ?s0 = "CircuitBreaker_init default_circuit_config"
  let ?evs = "[(1, 1, failed), (2, 2, failed), (3, 3, failed)]
     :: (rat \<times> rat \<times> outcome) list"
  have a: "state ?s0 = CLOSED \<and> failure_count ?s0 = 0 \<and>
      1 \<le> failure_threshold (cb_config ?s0) \<and>
      length ?evs = nat (failure_threshold (cb_config ?s0)) \<and>
      (\<forall>e \<in> set ?evs. snd (snd e) = failed)"
    by (simp add: CircuitBreaker_init_def default_circuit_config_def)
  have b: "state opened_breaker = OPEN \<and> last_failure_time opened_breaker = Some 3 \<and>
      (3::rat) \<noteq> 0 \<and> 10 - 3 < rat_of_int (recovery_timeout (cb_config opened_breaker))"
    by (simp add: opened_breaker_eq default_circuit_config_def)
  have c: "state opened_breaker = OPEN \<and> last_failure_time opened_breaker = Some 3 \<and>
      50 - 3 \<ge> rat_of_int (recovery_timeout (cb_config opened_breaker)) \<and>
      1 \<le> half_open_max_calls (cb_config opened_breaker)"
    by (simp add: opened_breaker_eq default_circuit_config_def)
  have v: "(let s2 = opened_breaker\<lparr>state := HALF_OPEN, half_open_calls := 1\<rparr> in
             case counting True 0 of
               (Inr result, w') \<Rightarrow> (Inr result, w', on_success s2)
             | (Inl e, w') \<Rightarrow>
                 if is_Exception e then (Inl e, w', on_failure 50 s2)
                 else (Inl e, w', s2))
           = (Inr ''done'', 1, probed_breaker)"
    unfolding probed_breaker_def opened_breaker_def by code_simp
  have "state (run ?evs ?s0) = OPEN"
    using breaker_opens_rejects_and_probes [of ?s0 ?evs, THEN conjunct1] a by (rule mp)
  moreover have "call 10 10 (counting True) 0 opened_breaker
     = (Inl CircuitBreakerOpenError, 0, opened_breaker)"
    using breaker_opens_rejects_and_probes
      [of opened_breaker _ 3 10 10 "counting True" 0, THEN conjunct2, THEN conjunct1] b
    by (rule mp)
  moreover have "call 50 50 (counting True) 0 opened_breaker = (Inr ''done'', 1, probed_breaker)"
    using breaker_opens_rejects_and_probes
      [of opened_breaker _ 3 50 50 "counting True" 0, THEN conjunct2, THEN conjunct2,
       THEN mp, OF c] v
    by (simp only:)
  ultimately show ?thesis by (simp only: simp_thms)
qed

text \<open>
  C6 (amended). When a call that is executed in HALF\_OPEN fails, that is, its
  action raises an \<open>Exception\<close>, the breaker goes back to OPEN, never to CLOSED,
  counts the failure and sets \<open>last_failure_time\<close> to the time of the failure. The
  failure does not reset the count of half-open calls: it keeps the value it had
  during the call, and is set to 0 when HALF\_OPEN is next entered.
\<close>

theorem half_open_failure_reopens:
  assumes "reachable cfg s"
    and "(state s = HALF_OPEN \<and> half_open_calls s < half_open_max_calls cfg) \<or>
         (state s = OPEN \<and> should_attempt_reset now s \<and> 0 < half_open_max_calls cfg)"
    and "func w = (Inl e, w')" and "is_Exception e"
  shows "\<exists>s'. call now later func w s = (Inl e, w', s') \<and>
           state s' = OPEN \<and> last_failure_time s' = Some later \<and>
           failure_count s' = failure_count s + 1 \<and>
           half_open_calls s' = (if state s = OPEN then 1 else half_open_calls s + 1)"
proof -
  have cfg: "cb_config s = cfg" using assms(1) by (rule reachable_config)
  have "tripped s" using assms(1) by (rule reachable_tripped)
  with assms(2) have "failure_threshold cfg \<le> failure_count s"
    by (auto simp add: tripped_def cfg)
  with assms(2,3,4) cfg show ?thesis
    by (auto simp add: call_def on_failure_def Let_def)
qed

theorem half_open_failure_reopens_witness:
  "reachable default_circuit_config probed_breaker \<and>
   state probed_breaker = HALF_OPEN \<and>
   half_open_calls probed_breaker < half_open_max_calls default_circuit_config \<and>
   counting False 0 = (Inl (ApiError ''boom''), 1) \<and>
   is_Exception (ApiError ''boom'') \<and>
   (\<exists>s'. call 51 52 (counting False) 0 probed_breaker = (Inl (ApiError ''boom''), 1, s') \<and>
          state s' = OPEN \<and> last_failure_time s' = Some 52 \<and> failure_count s' = 4 \<and>
          half_open_calls s' = 2)"
proof -
  have r: "reachable default_circuit_config probed_breaker"
    unfolding probed_breaker_def opened_breaker_def
    by (intro reachable_run reachable_init)
  have h: "state probed_breaker = HALF_OPEN \<and>
      half_open_calls probed_breaker < half_open_max_calls default_circuit_config"
    by (simp add: probed_breaker_eq default_circuit_config_def)
  then have h': "(state probed_breaker = HALF_OPEN \<and>
      half_open_calls probed_breaker < half_open_max_calls default_circuit_config) \<or>
     (state probed_breaker = OPEN \<and> should_attempt_reset 51 probed_breaker \<and>
      0 < half_open_max_calls default_circuit_config)" by blast
  have f: "counting False 0 = (Inl (ApiError ''boom''), 1)"
    by (simp add: counting_def)
  have x: "is_Exception (ApiError ''boom'')" by simp
  have n: "failure_count probed_breaker + 1 = 4"
    "half_open_calls probed_breaker + 1 = 2"
    by (simp_all add: probed_breaker_eq)
  from half_open_failure_reopens
    [where func = "counting False" and w = 0 and later = 52, OF r h' f x] r h f
  show ?thesis
    by (simp add: n)
qed

text \<open>
  After a probe that succeeded and one that failed, the breaker is OPEN with the
  success count at 1 and the count of half-open calls at 2.
\<close>

theorem half_open_failure_counters_counterexample:
  "state probed_breaker = HALF_OPEN \<and>
   half_open_calls probed_breaker < half_open_max_calls (cb_config probed_breaker) \<and>
   fst (call 51 52 (counting False) 0 probed_breaker) = Inl (ApiError ''boom'') \<and>
   state (snd (snd (call 51 52 (counting False) 0 probed_breaker))) = OPEN \<and>
   success_count (snd (snd (call 51 52 (counting False) 0 probed_breaker))) = 1 \<and>
   half_open_calls (snd (snd (call 51 52 (counting False) 0 probed_breaker))) = 2"
  unfolding probed_breaker_def opened_breaker_def by code_simp

lemma half_open_full_stays:
  "state s = HALF_OPEN \<Longrightarrow> half_open_max_calls (cb_config s) \<le> half_open_calls s \<Longrightarrow>
   breaker_step now later out s = s"
  by (simp add: breaker_step_def call_def)

lemma half_open_full_run:
  "state s = HALF_OPEN \<Longrightarrow> half_open_max_calls (cb_config s) \<le> half_open_calls s \<Longrightarrow>
   run evs s = s"
  by (induction evs) (auto simp add: half_open_full_stays)

lemma breaker_step_probing:
  "1 \<le> half_open_max_calls (cb_config s) \<Longrightarrow> tripped s \<Longrightarrow> probing s \<Longrightarrow>
   out \<noteq> cancelled \<Longrightarrow> probing (breaker_step now later out s)"
  by (cases out)
     (auto simp add: tripped_def probing_def breaker_step_def call_def on_success_def
       on_failure_def reset_circuit_def Let_def)

lemma settled_probing:
  "reachable_settled cfg s \<Longrightarrow> 1 \<le> half_open_max_calls cfg \<Longrightarrow> probing s"
proof (induction rule: reachable_settled.induct)
  case settled_init
  then show ?case by (simp add: probing_def CircuitBreaker_init_def)
next
  case (settled_step s out now later)
  then have "reachable cfg s" by (simp add: settled_reachable)
  with settled_step show ?case
    by (simp add: breaker_step_probing reachable_config reachable_tripped)
qed

lemma closed_can_open:
  "state s = CLOSED \<Longrightarrow> \<exists>evs. settled evs \<and> state (run evs s) = OPEN"
proof (induction "nat (failure_threshold (cb_config s) - failure_count s)" arbitrary: s)
  case 0
  then have "settled [(0, 0, failed)] \<and> state (run [(0, 0, failed)] s) = OPEN"
    by (simp add: breaker_step_closed_fail on_failure_def Let_def)
  then show ?case by blast
next
  case (Suc n)
  let ?s' = "on_failure 0 s"
  show ?case
  proof (cases "failure_count s + 1 \<ge> failure_threshold (cb_config s)")
    case True
    with Suc.prems have "settled [(0, 0, failed)] \<and> state (run [(0, 0, failed)] s) = OPEN"
      by (simp add: breaker_step_closed_fail on_failure_def Let_def)
    then show ?thesis by blast
  next
    case False
    with Suc.prems have a: "state ?s' = CLOSED" "cb_config ?s' = cb_config s"
      "failure_count ?s' = failure_count s + 1"
      by (simp_all add: on_failure_def Let_def)
    with Suc.hyps(2) have "n = nat (failure_threshold (cb_config ?s') - failure_count ?s')"
      by simp
    then obtain evs where "settled evs" "state (run evs ?s') = OPEN"
      using Suc.hyps(1) a(1) by blast
    then have "settled ((0, 0, failed) # evs) \<and> state (run ((0, 0, failed) # evs) s) = OPEN"
      using Suc.prems by (simp add: breaker_step_closed_fail)
    then show ?thesis by blast
  qed
qed

lemma half_open_can_close:
  "state s = HALF_OPEN \<Longrightarrow> half_open_calls s \<le> success_count s \<Longrightarrow>
   success_count s < success_threshold (cb_config s) \<Longrightarrow>
   success_threshold (cb_config s) \<le> half_open_max_calls (cb_config s) \<Longrightarrow>
   \<exists>evs. settled evs \<and> state (run evs s) = CLOSED"
proof (induction "nat (success_threshold (cb_config s) - success_count s)" arbitrary: s)
  case 0
  then show ?case by simp
next
  case (Suc n)
  let ?s' = "breaker_step 0 0 succeeded s"
  show ?case
  proof (cases "success_count s + 1 \<ge> success_threshold (cb_config s)")
    case True
    with Suc.prems have "state ?s' = CLOSED"
      by (simp add: breaker_step_def call_def on_success_def reset_circuit_def Let_def)
    then have "settled [(0, 0, succeeded)] \<and> state (run [(0, 0, succeeded)] s) = CLOSED"
      by simp
    then show ?thesis by blast
  next
    case False
    with Suc.prems have a: "state ?s' = HALF_OPEN" "cb_config ?s' = cb_config s"
      "success_count ?s' = success_count s + 1" "half_open_calls ?s' = half_open_calls s + 1"
      by (simp_all add: breaker_step_def call_def on_success_def Let_def)
    with Suc.hyps(2) have "n = nat (success_threshold (cb_config ?s') - success_count ?s')"
      by simp
    moreover have "half_open_calls ?s' \<le> success_count ?s'" using a Suc.prems(2) by simp
    moreover have "success_count ?s' < success_threshold (cb_config ?s')"
      using a False by simp
    moreover have "success_threshold (cb_config ?s') \<le> half_open_max_calls (cb_config ?s')"
      using a Suc.prems(4) by simp
    ultimately obtain evs where "settled evs" "state (run evs ?s') = CLOSED"
      using Suc.hyps(1) a(1) by blast
    then have "settled ((0, 0, succeeded) # evs) \<and>
        state (run ((0, 0, succeeded) # evs) s) = CLOSED"
      by simp
    then show ?thesis by blast
  qed
qed

lemma open_can_close:
  assumes "state s = OPEN" and "0 \<le> success_count s"
    and "1 \<le> half_open_max_calls (cb_config s)"
    and "success_threshold (cb_config s) \<le> half_open_max_calls (cb_config s)"
  shows "\<exists>evs. settled evs \<and> state (run evs s) = CLOSED"
proof -
  define now where "now = (case last_failure_time s of None \<Rightarrow> 0
     | Some t \<Rightarrow> t + of_int (recovery_timeout (cb_config s)))"
  let ?s' = "breaker_step now now succeeded s"
  have r: "should_attempt_reset now s"
    by (simp add: should_attempt_reset_def now_def split: option.splits)
  show ?thesis
  proof (cases "success_count s + 1 \<ge> success_threshold (cb_config s)")
    case True
    with assms r have "state ?s' = CLOSED"
      by (simp add: breaker_step_def call_def on_success_def reset_circuit_def Let_def)
    then have "settled [(now, now, succeeded)] \<and>
        state (run [(now, now, succeeded)] s) = CLOSED"
      by simp
    then show ?thesis by blast
  next
    case False
    with assms r have a: "state ?s' = HALF_OPEN" "cb_config ?s' = cb_config s"
      "success_count ?s' = success_count s + 1" "half_open_calls ?s' = 1"
      by (simp_all add: breaker_step_def call_def on_success_def Let_def)
    have "half_open_calls ?s' \<le> success_count ?s'" using a assms(2) by simp
    moreover have "success_count ?s' < success_threshold (cb_config ?s')"
      using a False by simp
    moreover have "success_threshold (cb_config ?s') \<le> half_open_max_calls (cb_config ?s')"
      using a assms(4) by simp
    ultimately obtain evs where "settled evs" "state (run evs ?s') = CLOSED"
      using half_open_can_close [of ?s'] a(1) by blast
    then have "settled ((now, now, succeeded) # evs) \<and>
        state (run ((now, now, succeeded) # evs) s) = CLOSED"
      by simp
    then show ?thesis by blast
  qed
qed

text \<open>
  C8 (amended). Under a policy that admits at least one half-open call and asks for
  no more successes than it admits calls (\<open>success_threshold \<le> half_open_max_calls\<close>),
  every breaker produced by a series of calls whose actions returned or raised an
  \<open>Exception\<close> has a continuation of such calls that changes its state, one that
  ends in OPEN and one that ends in CLOSED. The breakers so reached are of the
  same kind, so the machine has no terminal state: HALF\_OPEN can always be left,
  and OPEN and CLOSED can always be entered again.
\<close>

theorem no_terminal_state:
  assumes "reachable_settled cfg s"
    and "1 \<le> half_open_max_calls cfg"
    and "success_threshold cfg \<le> half_open_max_calls cfg"
  shows "(\<exists>evs. settled evs \<and> state (run evs s) \<noteq> state s) \<and>
         (\<exists>evs. settled evs \<and> state (run evs s) = OPEN) \<and>
         (\<exists>evs. settled evs \<and> state (run evs s) = CLOSED)"
proof -
  have re: "reachable cfg s" using assms(1) by (rule settled_reachable)
  have cfg: "cb_config s = cfg" using re by (rule reachable_config)
  have tr: "tripped s" using re by (rule reachable_tripped)
  have pr: "probing s" using assms(1,2) by (rule settled_probing)
  have nil: "settled [] \<and> run [] s = s" by simp
  have to_open: "\<exists>evs. settled evs \<and> state (run evs s) = OPEN"
  proof (cases "state s")
    case CLOSED
    then show ?thesis by (rule closed_can_open)
  next
    case OPEN
    with nil show ?thesis by metis
  next
    case HALF_OPEN
    with tr have "failure_threshold cfg \<le> failure_count s"
      by (simp add: tripped_def cfg)
    moreover from HALF_OPEN pr assms(3) have "half_open_calls s < half_open_max_calls cfg"
      by (simp add: probing_def cfg)
    ultimately have "state (breaker_step 0 0 failed s) = OPEN"
      using HALF_OPEN cfg by (simp add: breaker_step_def call_def on_failure_def Let_def)
    then have "settled [(0, 0, failed)] \<and> state (run [(0, 0, failed)] s) = OPEN" by simp
    then show ?thesis by blast
  qed
  have to_closed: "\<exists>evs. settled evs \<and> state (run evs s) = CLOSED"
  proof (cases "state s")
    case CLOSED
    with nil show ?thesis by metis
  next
    case OPEN
    then show ?thesis
      using pr assms(2,3) by (intro open_can_close) (simp_all add: probing_def cfg)
  next
    case HALF_OPEN
    then show ?thesis
      using pr assms(3) by (intro half_open_can_close) (simp_all add: probing_def cfg)
  qed
  have "\<exists>evs. settled evs \<and> state (run evs s) \<noteq> state s"
  proof (cases "state s = OPEN")
    case True
    with to_closed show ?thesis by auto
  next
    case False
    with to_open show ?thesis by auto
  qed
  with to_open to_closed show ?thesis by blast
qed

theorem no_terminal_state_witness:
  "reachable_settled default_circuit_config probed_breaker \<and>
   1 \<le> half_open_max_calls default_circuit_config \<and>
   success_threshold default_circuit_config \<le> half_open_max_calls default_circuit_config \<and>
   (\<exists>evs. settled evs \<and> state (run evs probed_breaker) \<noteq> state probed_breaker) \<and>
   (\<exists>evs. settled evs \<and> state (run evs probed_breaker) = OPEN) \<and>
   (\<exists>evs. settled evs \<and> state (run evs probed_breaker) = CLOSED)"
proof -
  have r: "reachable_settled default_circuit_config probed_breaker"
    unfolding probed_breaker_def opened_breaker_def
    by (intro reachable_settled_run settled_init) simp_all
  have h1: "1 \<le> half_open_max_calls default_circuit_config"
    by (simp add: default_circuit_config_def)
  have h2: "success_threshold default_circuit_config
      \<le> half_open_max_calls default_circuit_config"
    by (simp add: default_circuit_config_def)
  from no_terminal_state [OF r h1 h2] r h1 h2 show ?thesis by blast
qed

text \<open>
  Under a policy that admits one half-open call and asks for two successes, one
  successful probe leaves the breaker HALF\_OPEN for good: every later call is
  rejected and changes nothing. Under the policy of \<open>gemini_api\<close>, which admits one
  call and asks for one success, a probe that is cancelled does the same.
\<close>

theorem terminal_state_counterexample:
  "reachable_settled sparse_probe_config trapped_breaker \<and>
   \<not> (\<exists>evs. state (run evs trapped_breaker) \<noteq> state trapped_breaker) \<and>
   reachable (get_circuit_config ''gemini_api'') cancelled_probe_breaker \<and>
   1 \<le> half_open_max_calls (get_circuit_config ''gemini_api'') \<and>
   success_threshold (get_circuit_config ''gemini_api'')
     \<le> half_open_max_calls (get_circuit_config ''gemini_api'') \<and>
   \<not> (\<exists>evs. state (run evs cancelled_probe_breaker) \<noteq> state cancelled_probe_breaker)"
proof (intro conjI)
  show "reachable_settled sparse_probe_config trapped_breaker"
    unfolding trapped_breaker_def
    by (intro reachable_settled_run settled_init) simp
next
  have e: "state trapped_breaker = HALF_OPEN"
    "half_open_max_calls (cb_config trapped_breaker) \<le> half_open_calls trapped_breaker"
    unfolding trapped_breaker_def by code_simp+
  have "run evs trapped_breaker = trapped_breaker" for evs
    using e by (rule half_open_full_run)
  then show "\<not> (\<exists>evs. state (run evs trapped_breaker) \<noteq> state trapped_breaker)"
    by simp
next
  show "reachable (get_circuit_config ''gemini_api'') cancelled_probe_breaker"
    unfolding cancelled_probe_breaker_def
    by (intro reachable_run reachable_init)
next
  show "1 \<le> half_open_max_calls (get_circuit_config ''gemini_api'')"
    by (simp add: get_circuit_config_def)
next
  show "success_threshold (get_circuit_config ''gemini_api'')
     \<le> half_open_max_calls (get_circuit_config ''gemini_api'')"
    by (simp add: get_circuit_config_def)
next
  have e: "state cancelled_probe_breaker = HALF_OPEN"
    "half_open_max_calls (cb_config cancelled_probe_breaker)
       \<le> half_open_calls cancelled_probe_breaker"
    unfolding cancelled_probe_breaker_def by code_simp+
  have "run evs cancelled_probe_breaker = cancelled_probe_breaker" for evs
    using e by (rule half_open_full_run)
  then show "\<not> (\<exists>evs. state (run evs cancelled_probe_breaker)
      \<noteq> state cancelled_probe_breaker)"
    by simp
qed

section \<open>The cache\<close>

text \<open>
  C7 (amended). \<open>get_api_response\<close> reads the memory tier first and returns an entry
  found there that has not expired, leaving the cache as it is. Otherwise it reads
  the file: an entry that has not expired is put into the memory tier and returned;
  an expired one is deleted from the directory and the read is a miss. An entry
  has expired when its age exceeds \<open>ttl\<close>, the one time-to-live of the whole cache,
  fixed when the cache is made: no entry carries a time-to-live of its own.
  \<open>set_api_response\<close> takes no time-to-live and writes the entry, stamped \<open>now\<close>,
  into both tiers.
\<close>

theorem two_tier_protocol:
  "(memory_cache c (K h) = Some (d, t) \<and> now - t \<le> of_int (ttl c)
      \<longrightarrow> get_api_response K now h c = (Some d, c)) \<and>
   ((case memory_cache c (K h) of None \<Rightarrow> True | Some (d0, t0) \<Rightarrow> now - t0 > of_int (ttl c)) \<and>
    cache_dir c (K h) = Some (Pickled d t) \<and> now - t \<le> of_int (ttl c)
      \<longrightarrow> fst (get_api_response K now h c) = Some d \<and>
          memory_cache (snd (get_api_response K now h c)) (K h) = Some (d, t) \<and>
          cache_dir (snd (get_api_response K now h c)) = cache_dir c) \<and>
   ((case memory_cache c (K h) of None \<Rightarrow> True | Some (d0, t0) \<Rightarrow> now - t0 > of_int (ttl c)) \<and>
    cache_dir c (K h) = Some (Pickled d t) \<and> now - t > of_int (ttl c)
      \<longrightarrow> fst (get_api_response K now h c) = None \<and>
          memory_cache (snd (get_api_response K now h c)) (K h) = None \<and>
          cache_dir (snd (get_api_response K now h c)) (K h) = None) \<and>
   memory_cache (set_api_response K now h r c) (K h) = Some (r, now) \<and>
   cache_dir (set_api_response K now h r c) (K h) = Some (Pickled r now) \<and>
   ttl (set_api_response K now h r c) = ttl c \<and>
   ttl (snd (get_api_response K now h c)) = ttl c"
  by (auto simp add: get_api_response_def set_api_response_def is_expired_def Let_def
      split: option.splits cache_file.splits)

theorem two_tier_protocol_witness:
  "get_api_response plain_key 10 ''k''
     (set_api_response plain_key 0 ''k'' ''v'' (PerformanceCache_init 3600))
   = (Some ''v'', set_api_response plain_key 0 ''k'' ''v'' (PerformanceCache_init 3600)) \<and>
   fst (get_api_response plain_key 10 ''k''
     ((set_api_response plain_key 0 ''k'' ''v'' (PerformanceCache_init 3600))
        \<lparr>memory_cache := Map.empty\<rparr>)) = Some ''v'' \<and>
   memory_cache (snd (get_api_response plain_key 10 ''k''
     ((set_api_response plain_key 0 ''k'' ''v'' (PerformanceCache_init 3600))
        \<lparr>memory_cache := Map.empty\<rparr>))) (plain_key ''k'') = Some (''v'', 0) \<and>
   fst (get_api_response plain_key 4000 ''k''
     (set_api_response plain_key 0 ''k'' ''v'' (PerformanceCache_init 3600))) = None \<and>
   cache_dir (snd (get_api_response plain_key 4000 ''k''
     (set_api_response plain_key 0 ''k'' ''v'' (PerformanceCache_init 3600))))
       (plain_key ''k'') = None"
proof -
  let ?c = "set_api_response plain_key 0 ''k'' ''v'' (PerformanceCache_init 3600)"
  let ?c2 = "?c\<lparr>memory_cache := Map.empty\<rparr>"
  have a: "memory_cache ?c (plain_key ''k'') = Some (''v'', 0) \<and>
           10 - 0 \<le> rat_of_int (ttl ?c)"
    by (simp add: set_api_response_def PerformanceCache_init_def Let_def)
  have b: "(case memory_cache ?c2 (plain_key ''k'') of None \<Rightarrow> True
             | Some (d0, t0) \<Rightarrow> 10 - t0 > rat_of_int (ttl ?c2)) \<and>
           cache_dir ?c2 (plain_key ''k'') = Some (Pickled ''v'' 0) \<and>
           10 - 0 \<le> rat_of_int (ttl ?c2)"
    by (simp add: set_api_response_def PerformanceCache_init_def Let_def)
  have c: "(case memory_cache ?c (plain_key ''k'') of None \<Rightarrow> True
             | Some (d0, t0) \<Rightarrow> 4000 - t0 > rat_of_int (ttl ?c)) \<and>
           cache_dir ?c (plain_key ''k'') = Some (Pickled ''v'' 0) \<and>
           4000 - 0 > rat_of_int (ttl ?c)"
    by (simp add: set_api_response_def PerformanceCache_init_def Let_def)
  note p1 = two_tier_protocol [of ?c plain_key "''k''" "''v''" 0 10, THEN conjunct1, THEN mp, OF a]
  note p2 = two_tier_protocol [of ?c2 plain_key "''k''" "''v''" 0 10,
      THEN conjunct2, THEN conjunct1, THEN mp, OF b]
  note p3 = two_tier_protocol [of ?c plain_key "''k''" "''v''" 0 4000,
      THEN conjunct2, THEN conjunct2, THEN conjunct1, THEN mp, OF c]
  from p1 p2 p3 show ?thesis by blast
qed

text \<open>
  An entry written at time 0 and read at time 2: the cache of the source, made
  with its default time-to-live of 3600 seconds, returns it, where the
  specification's cache, given a time-to-live of 1 second for the entry, misses.
\<close>

theorem per_entry_ttl_counterexample:
  "fst (get_api_response plain_key 2 ''k''
          (set_api_response plain_key 0 ''k'' ''v'' (PerformanceCache_init 3600)))
     = Some ''v'' \<and>
   fst (spec_Get ''k'' 2 (spec_Set ''k'' ''v'' 1 0 empty_ResponseCache)) = None"
  by code_simp

section \<open>The wrapper\<close>




lemma protected_call_failure:
  assumes "\<not> truthy (fst (if use_cache
             then get_api_response K (at_lookup clk)
                    (H (full_prompt_of prompt system_prompt) temperature max_tokens)
                    (performance_cache sys)
             else (None, performance_cache sys)))"
    and "call (at_call clk) (at_failure clk)
           (api (full_prompt_of prompt system_prompt) temperature max_tokens) w
           (fst (get_circuit_breaker ''gemini_api'' (api_manager sys))) = (Inl e, w', cb')"
    and "is_Exception e" and "e \<noteq> CircuitBreakerOpenError" and "e \<noteq> ImportError"
  shows "fst (protected_call H K api clk prompt temperature max_tokens system_prompt
                 use_cache w sys) = Inr (error_notice e)"
  using assms
  by (cases e) (auto simp add: protected_call_def Let_def split: prod.splits)

text \<open>
  C3 (amended). When the action of a call the breaker executes raises an
  \<open>Exception\<close>, \<open>CircuitBreaker.call\<close> counts the failure, sets \<open>last_failure_time\<close>,
  opens the circuit if the threshold is reached, and raises the same exception to
  its caller. \<open>generate_response\<close> catches that exception: when the limiter grants
  the request, the cache has no response and the breaker's call raises an
  \<open>Exception\<close> other than \<open>CircuitBreakerOpenError\<close> and \<open>ImportError\<close>, it completes
  normally with the text \<open>Error: Unable to generate response - \<close> followed by the
  exception.
\<close>

theorem failure_recorded_then_reraised:
  "(func w = (Inl e, w') \<and> is_Exception e \<and>
    (state s = CLOSED \<or>
     (state s = HALF_OPEN \<and> half_open_calls s < half_open_max_calls (cb_config s)) \<or>
     (state s = OPEN \<and> should_attempt_reset now s \<and> 0 < half_open_max_calls (cb_config s)))
    \<longrightarrow> (\<exists>s'. call now later func w s = (Inl e, w', s') \<and>
           failure_count s' = failure_count s + 1 \<and>
           last_failure_time s' = Some later \<and>
           (failure_threshold (cb_config s) \<le> failure_count s + 1 \<longrightarrow> state s' = OPEN))) \<and>
   (fst (is_allowed 1 (at_limit clk)
          (fst (get_rate_limiter ''gemini_api'' (at_init clk) (api_manager sys))))
      = Inr (True, i) \<and>
    \<not> truthy (fst (if use_cache
             then get_api_response K (at_lookup clk)
                    (H (full_prompt_of prompt system_prompt) temperature max_tokens)
                    (performance_cache sys)
             else (None, performance_cache sys))) \<and>
    call (at_call clk) (at_failure clk)
           (api (full_prompt_of prompt system_prompt) temperature max_tokens) v
           (fst (get_circuit_breaker ''gemini_api'' (api_manager sys))) = (Inl x, v', cb') \<and>
    is_Exception x \<and> x \<noteq> CircuitBreakerOpenError \<and> x \<noteq> ImportError
    \<longrightarrow> fst (generate_response H K api clk prompt temperature max_tokens system_prompt
                 use_cache v sys) = Inr (error_notice x))"
proof (intro conjI impI)
  assume "func w = (Inl e, w') \<and> is_Exception e \<and>
    (state s = CLOSED \<or>
     (state s = HALF_OPEN \<and> half_open_calls s < half_open_max_calls (cb_config s)) \<or>
     (state s = OPEN \<and> should_attempt_reset now s \<and> 0 < half_open_max_calls (cb_config s)))"
  then show "\<exists>s'. call now later func w s = (Inl e, w', s') \<and>
           failure_count s' = failure_count s + 1 \<and>
           last_failure_time s' = Some later \<and>
           (failure_threshold (cb_config s) \<le> failure_count s + 1 \<longrightarrow> state s' = OPEN)"
    by (auto simp add: call_def on_failure_def Let_def)
next
  assume a: "fst (is_allowed 1 (at_limit clk)
          (fst (get_rate_limiter ''gemini_api'' (at_init clk) (api_manager sys))))
      = Inr (True, i) \<and>
    \<not> truthy (fst (if use_cache
             then get_api_response K (at_lookup clk)
                    (H (full_prompt_of prompt system_prompt) temperature max_tokens)
                    (performance_cache sys)
             else (None, performance_cache sys))) \<and>
    call (at_call clk) (at_failure clk)
           (api (full_prompt_of prompt system_prompt) temperature max_tokens) v
           (fst (get_circuit_breaker ''gemini_api'' (api_manager sys))) = (Inl x, v', cb') \<and>
    is_Exception x \<and> x \<noteq> CircuitBreakerOpenError \<and> x \<noteq> ImportError"
  obtain rl m1 where g: "get_rate_limiter ''gemini_api'' (at_init clk) (api_manager sys) = (rl, m1)"
    by (cases "get_rate_limiter ''gemini_api'' (at_init clk) (api_manager sys)")
  obtain rl' where ia: "is_allowed 1 (at_limit clk) rl = (Inr (True, i), rl')"
    using a g by (cases "is_allowed 1 (at_limit clk) rl") simp
  define sys1 where "sys1 = sys\<lparr>api_manager :=
                   m1\<lparr>rate_limiters := (rate_limiters m1)(''gemini_api'' \<mapsto> rl')\<rparr>\<rparr>"
  have gen: "generate_response H K api clk prompt temperature max_tokens system_prompt
                 use_cache v sys
     = protected_call H K api clk prompt temperature max_tokens system_prompt use_cache v sys1"
    by (simp add: generate_response_def g ia sys1_def Let_def)
  have m1: "circuit_breakers m1 = circuit_breakers (api_manager sys)"
    using g by (auto simp add: get_rate_limiter_def Let_def split: option.splits)
  have cb: "fst (get_circuit_breaker ''gemini_api'' (api_manager sys1))
     = fst (get_circuit_breaker ''gemini_api'' (api_manager sys))"
    by (simp add: sys1_def get_circuit_breaker_def m1 Let_def split: option.splits)
  have pc: "performance_cache sys1 = performance_cache sys" by (simp add: sys1_def)
  have "fst (protected_call H K api clk prompt temperature max_tokens system_prompt
                 use_cache v sys1) = Inr (error_notice x)"
    by (rule protected_call_failure [where w' = v' and cb' = cb'])
       (use a in \<open>auto simp add: cb pc split: if_splits\<close>)
  with gen show "fst (generate_response H K api clk prompt temperature max_tokens system_prompt
                 use_cache v sys) = Inr (error_notice x)" by simp
qed

theorem failure_recorded_then_reraised_witness:
  "(\<exists>s'. call 1 2 (counting False) 0 (CircuitBreaker_init default_circuit_config)
            = (Inl (ApiError ''boom''), 1, s') \<and>
          failure_count s' = 1 \<and> last_failure_time s' = Some 2) \<and>
   fst (generate_response plain_hash plain_key (\<lambda>p t m. counting False) (reading 1)
          ''q'' (7 / 10) 2048 None True 0 started_system)
     = Inr (error_notice (ApiError ''boom''))"
proof -
  let ?s = "CircuitBreaker_init default_circuit_config"
  have a: "counting False 0 = (Inl (ApiError ''boom''), 1) \<and> is_Exception (ApiError ''boom'') \<and>
    (state ?s = CLOSED \<or>
     (state ?s = HALF_OPEN \<and> half_open_calls ?s < half_open_max_calls (cb_config ?s)) \<or>
     (state ?s = OPEN \<and> should_attempt_reset 1 ?s \<and> 0 < half_open_max_calls (cb_config ?s)))"
    by (simp add: counting_def CircuitBreaker_init_def)
  have n: "failure_count ?s + 1 = 1" by (simp add: CircuitBreaker_init_def)
  have b: "fst (is_allowed 1 (at_limit (reading 1))
          (fst (get_rate_limiter ''gemini_api'' (at_init (reading 1))
                 (api_manager started_system))))
      = Inr (True, granted 29 499 4) \<and>
    \<not> truthy (fst (if True
             then get_api_response plain_key (at_lookup (reading 1))
                    (plain_hash (full_prompt_of ''q'' None) (7 / 10) 2048)
                    (performance_cache started_system)
             else (None, performance_cache started_system))) \<and>
    call (at_call (reading 1)) (at_failure (reading 1))
           (counting False) 0
           (fst (get_circuit_breaker ''gemini_api'' (api_manager started_system)))
       = (Inl (ApiError ''boom''), 1,
          snd (snd (call (at_call (reading 1)) (at_failure (reading 1))
           (counting False) 0
           (fst (get_circuit_breaker ''gemini_api'' (api_manager started_system)))))) \<and>
    is_Exception (ApiError ''boom'') \<and>
    ApiError ''boom'' \<noteq> CircuitBreakerOpenError \<and> ApiError ''boom'' \<noteq> ImportError"
    unfolding started_system_def by code_simp
  note p1 = failure_recorded_then_reraised
    [where func = "counting False" and w = 0 and e = "ApiError ''boom''" and w' = 1
       and s = ?s and now = 1 and later = 2, THEN conjunct1, THEN mp, OF a]
  note p2 = failure_recorded_then_reraised
    [where clk = "reading 1" and sys = started_system and i = "granted 29 499 4"
       and use_cache = True and K = plain_key and H = plain_hash and prompt = "''q''"
       and system_prompt = None and temperature = "7 / 10" and max_tokens = 2048
       and api = "\<lambda>p t m. counting False" and v = 0 and x = "ApiError ''boom''" and v' = 1,
     THEN conjunct2, THEN mp, OF b]
  from p1 p2 show ?thesis by (auto simp add: n)
qed

text \<open>
  A request whose action raises, in a process that has just started: the action
  is invoked once and the request completes normally, with the error text.
\<close>

theorem action_error_swallowed_counterexample:
  "fst (generate_response plain_hash plain_key (\<lambda>p t m. counting False) (reading 1)
          ''q'' (7 / 10) 2048 None True 0 started_system)
     = Inr (error_notice (ApiError ''boom'')) \<and>
   fst (snd (generate_response plain_hash plain_key (\<lambda>p t m. counting False) (reading 1)
          ''q'' (7 / 10) 2048 None True 0 started_system)) = 1"
  unfolding started_system_def by code_simp

text \<open>
  The two raises the amended claims leave aside, in a process that has just
  started. A cancelled action is not counted by the breaker and the cancellation
  leaves \<open>generate_response\<close> as a raise. An \<open>ImportError\<close> raised by the action is
  counted as a failure and answered by a second, direct call of the model.
\<close>

lemma cancelled_action_not_recorded:
  "fst (generate_response plain_hash plain_key (\<lambda>p t m. raising CancelledError) (reading 1)
          ''q'' (7 / 10) 2048 None True 0 started_system) = Inl CancelledError \<and>
   fst (snd (generate_response plain_hash plain_key (\<lambda>p t m. raising CancelledError)
          (reading 1) ''q'' (7 / 10) 2048 None True 0 started_system)) = 1 \<and>
   map_option failure_count
     (circuit_breakers (api_manager (snd (snd (generate_response plain_hash plain_key
          (\<lambda>p t m. raising CancelledError) (reading 1) ''q'' (7 / 10) 2048 None True 0
          started_system)))) ''gemini_api'') = Some 0"
  unfolding started_system_def by code_simp

lemma import_error_calls_again:
  "fst (generate_response plain_hash plain_key (\<lambda>p t m. raising ImportError) (reading 1)
          ''q'' (7 / 10) 2048 None True 0 started_system) = Inr (error_notice ImportError) \<and>
   fst (snd (generate_response plain_hash plain_key (\<lambda>p t m. raising ImportError)
          (reading 1) ''q'' (7 / 10) 2048 None True 0 started_system)) = 2 \<and>
   map_option failure_count
     (circuit_breakers (api_manager (snd (snd (generate_response plain_hash plain_key
          (\<lambda>p t m. raising ImportError) (reading 1) ''q'' (7 / 10) 2048 None True 0
          started_system)))) ''gemini_api'') = Some 1"
  unfolding started_system_def by code_simp

end
